theory Spec2Isabelle
  imports
    Complex_Main
    "HOL-Library.Sublist"
    "HOL-Library.Multiset"
    "HOL-Library.Char_ord"
    "HOL-Library.List_Lexorder"
    "HOL-Library.Product_Lexorder"
begin

section \<open>Scenario comparison (comp.py): a shallow embedding\<close>

text \<open>
  Python exceptions are values of the type \<open>error\<close>; a function that may raise returns
  \<open>error + 'a\<close> with \<open>Inl\<close> for the exception.  Python strings are \<open>string\<close> with the
  lexicographic order on characters.  A finite float is given by the real number it
  denotes.  Arithmetic on floats rounds: where a property depends on a sum or a quotient
  of arbitrary numbers, the operation is a parameter of the model and the property holds
  for every such operation; where the model computes in the reals, the properties are
  stated on numbers for which the doubles compute exactly.
\<close>

datatype error =
  ValueError | IndexError | ZeroDivisionError | KeyError | FileNotFoundError | XLRDError

definition bindE :: "error + 'a \<Rightarrow> ('a \<Rightarrow> error + 'b) \<Rightarrow> error + 'b" where
  "bindE m f = (case m of Inl e \<Rightarrow> Inl e | Inr x \<Rightarrow> f x)"

subsection \<open>deduplicate\_legend\<close>

text \<open>
  The loop of lines 52-57: \<open>new_handles\<close> and \<open>new_labels\<close> grow at the end, and a pair is
  appended only when its label is not among the labels kept so far.
\<close>

fun dedup_loop :: "('h \<times> string) list \<Rightarrow> 'h list \<Rightarrow> string list \<Rightarrow> 'h list \<times> string list" where
  "dedup_loop [] new_handles new_labels = (new_handles, new_labels)"
| "dedup_loop ((hdl, lbl) # rest) new_handles new_labels =
     (if lbl \<notin> set new_labels
      then dedup_loop rest (new_handles @ [hdl]) (new_labels @ [lbl])
      else dedup_loop rest new_handles new_labels)"

text \<open>
  Line 59: \<open>sorted(zip(new_labels, new_handles))\<close> compares tuples; the labels kept by the
  loop are pairwise different, so every comparison is decided by the label and the handles
  are never compared: the sort is the stable sort on the first component.
  \<open>zip(*pairs)\<close> of an empty list yields nothing, and unpacking nothing into the two
  targets raises ValueError; of a non-empty list it yields the tuple of labels and the
  tuple of handles.
\<close>

definition deduplicate_legend :: "'h list \<Rightarrow> string list \<Rightarrow> error + ('h list \<times> string list)" where
  "deduplicate_legend handles labels =
     (case dedup_loop (zip handles labels) [] [] of (new_handles, new_labels) \<Rightarrow>
        (let pairs = sort_key fst (zip new_labels new_handles)
         in if pairs = [] then Inl ValueError
            else Inr (map snd pairs, map fst pairs)))"

subsection \<open>group\_hbar\_plots\<close>

text \<open>
  A patch is a rectangle with a vertical offset and a height; a legend handle (a bar
  container) is the list of its patches, one per row.  The axis is represented by the
  handles that \<open>ax.get_legend_handles_labels()\<close> returns; the patches are mutated in
  place, so the function returns the handles with the new offsets.
\<close>

datatype patch = Patch (get_y: real) (get_height: real)

definition set_y :: "real \<Rightarrow> patch \<Rightarrow> patch" where
  "set_y v p = Patch v (get_height p)"

definition divmod_py :: "int \<Rightarrow> int \<Rightarrow> error + (int \<times> int)" where
  "divmod_py a b = (if b = 0 then Inl ZeroDivisionError else Inr (a div b, a mod b))"

text \<open>Lines 72-73: \<open>not inner_sep\<close> holds for \<open>None\<close> and for a number equal to zero.\<close>

definition effective_inner_sep :: "real option \<Rightarrow> real \<Rightarrow> real" where
  "effective_inner_sep inner_sep bar_height =
     (case inner_sep of
        None \<Rightarrow> 0.5 * (1 - bar_height)
      | Some s \<Rightarrow> if s = 0 then 0.5 * (1 - bar_height) else s)"

text \<open>
  Lines 73-84 compute in doubles; the model computes in the reals.  The two agree
  wherever no operation rounds.  That is so for the rows 0 to 3 in groups of three when
  the bar height and the separation passed in are multiples of 1/1024 of magnitude at
  most 1024: every intermediate result is then a multiple of 1/2048 below 16384 in
  magnitude, which a double holds exactly.
\<close>

text \<open>Lines 79-81: the offset of a whole group.\<close>

definition group_offset :: "real \<Rightarrow> real \<Rightarrow> int \<Rightarrow> int \<Rightarrow> real" where
  "group_offset bar_height inner_sep group_size group_number =
     of_int (group_number * group_size)
     + 0.5 * of_int (group_size - 1) * (1 - inner_sep)
     - 0.5 * (of_int group_size * bar_height)"

text \<open>Lines 77-84: the value handed to \<open>patch.set_y\<close> for one row.\<close>

definition patch_offset :: "real \<Rightarrow> real \<Rightarrow> int \<Rightarrow> nat \<Rightarrow> error + real" where
  "patch_offset bar_height inner_sep group_size row =
     bindE (divmod_py (int row) group_size) (\<lambda>(group_number, row_within_group).
       Inr (of_int row_within_group * (bar_height + inner_sep)
            + group_offset bar_height inner_sep group_size group_number))"

text \<open>
  Lines 75-76: the two enumerations.  The only exception in the loop body is the division
  by zero, which the first patch already raises, before any patch is moved.
\<close>

fun place_patches :: "real \<Rightarrow> real \<Rightarrow> int \<Rightarrow> nat \<Rightarrow> patch list \<Rightarrow> error + patch list" where
  "place_patches bar_height inner_sep group_size row [] = Inr []"
| "place_patches bar_height inner_sep group_size row (p # ps) =
     bindE (patch_offset bar_height inner_sep group_size row) (\<lambda>v.
       bindE (place_patches bar_height inner_sep group_size (Suc row) ps) (\<lambda>ps'.
         Inr (set_y v p # ps')))"

fun place_handles :: "real \<Rightarrow> real \<Rightarrow> int \<Rightarrow> patch list list \<Rightarrow> error + patch list list" where
  "place_handles bar_height inner_sep group_size [] = Inr []"
| "place_handles bar_height inner_sep group_size (handle # rest) =
     bindE (place_patches bar_height inner_sep group_size 0 handle) (\<lambda>handle'.
       bindE (place_handles bar_height inner_sep group_size rest) (\<lambda>rest'.
         Inr (handle' # rest')))"

definition group_hbar_plots :: "patch list list \<Rightarrow> int \<Rightarrow> real option \<Rightarrow> error + patch list list" where
  "group_hbar_plots handles group_size inner_sep =
     (case handles of
        [] \<Rightarrow> Inl IndexError
      | [] # _ \<Rightarrow> Inl IndexError
      | (p0 # _) # _ \<Rightarrow>
          (let bar_height = get_height p0
           in place_handles bar_height (effective_inner_sep inner_sep bar_height)
                group_size handles))"

subsection \<open>compare\_scenarios: scenario names and the base scenario\<close>

text \<open>
  \<open>str.replace(old, new)\<close> for a non-empty \<open>old\<close>: the occurrences are replaced from the
  left and do not overlap.  Only non-empty literals are passed below.
\<close>

function str_replace :: "string \<Rightarrow> string \<Rightarrow> string \<Rightarrow> string" where
  "str_replace old new [] = []"
| "str_replace old new (c # cs) =
     (if old \<noteq> [] \<and> prefix old (c # cs)
      then new @ str_replace old new (drop (length old) (c # cs))
      else c # str_replace old new cs)"
  by pat_completeness auto
termination
  by (relation "measure (\<lambda>(old, new, s). length s)") auto

text \<open>\<open>os.path.basename\<close> (POSIX): what follows the last slash.\<close>

definition basename :: "string \<Rightarrow> string" where
  "basename p = rev (takeWhile (\<lambda>c. c \<noteq> CHR ''/'') (rev p))"

text \<open>Lines 105-109.\<close>

definition scenario_name :: "string \<Rightarrow> string" where
  "scenario_name rf =
     str_replace ''scenario '' ''''
       (str_replace ''.xlsx'' ''''
          (str_replace ''_'' '' '' (basename rf)))"

text \<open>\<open>list.index\<close>, \<open>list.pop\<close> and \<open>list.insert\<close>.\<close>

fun index_py :: "'a list \<Rightarrow> 'a \<Rightarrow> error + nat" where
  "index_py [] x = Inl ValueError"
| "index_py (y # ys) x =
     (if y = x then Inr 0 else bindE (index_py ys x) (\<lambda>i. Inr (Suc i)))"

definition pop_py :: "'a list \<Rightarrow> nat \<Rightarrow> error + ('a \<times> 'a list)" where
  "pop_py xs i =
     (if i < length xs then Inr (xs ! i, take i xs @ drop (Suc i) xs) else Inl IndexError)"

definition insert_py :: "nat \<Rightarrow> 'a \<Rightarrow> 'a list \<Rightarrow> 'a list" where
  "insert_py i x xs = take i xs @ x # drop i xs"

text \<open>
  Lines 111-117.  Both lists are changed in place; the result is their content after the
  \<open>try\<close> statement.  Only ValueError is caught.  An IndexError of the first \<open>pop\<close> would
  leave both lists as they were; the second \<open>pop\<close> cannot fail, its index was found in
  \<open>scenario_names\<close>.
\<close>

definition prioritize_base ::
    "string list \<Rightarrow> string list \<Rightarrow> error + (string list \<times> string list)" where
  "prioritize_base result_files scenario_names =
     (case index_py scenario_names ''base'' of
        Inl e \<Rightarrow> if e = ValueError then Inr (result_files, scenario_names) else Inl e
      | Inr base_scenario \<Rightarrow>
          bindE (pop_py result_files base_scenario) (\<lambda>(rf, result_files').
            bindE (pop_py scenario_names base_scenario) (\<lambda>(name, scenario_names').
              Inr (insert_py 0 rf result_files', insert_py 0 name scenario_names'))))"

subsection \<open>compare\_scenarios: reading and merging\<close>

text \<open>
  A table: the labels of the rows, and the columns in order, each with its label and its
  cells, one cell per row.  A series is a list of labels with their values.
\<close>

record ('k, 'c, 'v) table =
  index :: "'k list"
  cols :: "('c \<times> 'v list) list"

text \<open>A cell of a sheet that holds texts and numbers; a blank cell is NaN.\<close>

datatype cell = Blank | Text string | Number real

text \<open>
  What \<open>xls.parse\<close> returns for the three sheets (lines 127-129), and \<open>None\<close> where it
  raises because the workbook has no such sheet.  The rows of \<open>Costs\<close> are labelled by the
  cost type (\<open>index_col=[0]\<close>), those of \<open>Process caps\<close> by site and process
  (\<open>index_col=[0,1]\<close>); missing numbers are \<open>None\<close>.  The frame of \<open>Commodity sums\<close> has
  the first column of the sheet as its index, without a name, blank (\<open>None\<close>) below the
  first row of each block: the broken index that lines 131-134 repair.
\<close>

record workbook =
  Costs :: "(string, string, real option) table option"
  Commodity_sums :: "(string option, string, cell) table option"
  Process_caps :: "(string \<times> string, string, real option) table option"

text \<open>
  Line 132, \<open>reset_index\<close>: the index becomes the first column, named \<open>index\<close> (or
  \<open>level_0\<close> where a column \<open>index\<close> exists already), and the rows are numbered.
\<close>

definition reset_index :: "(string option, string, cell) table \<Rightarrow> (nat, string, cell) table" where
  "reset_index df =
     \<lparr>index = [0..<length (index df)],
      cols = (if ''index'' \<in> fst ` set (cols df) then ''level_0'' else ''index'',
              map (\<lambda>label. case label of None \<Rightarrow> Blank | Some s \<Rightarrow> Text s) (index df))
             # cols df\<rparr>"

text \<open>
  Line 133, \<open>fillna(method='ffill')\<close>: in every column a blank cell takes the last value
  above it that is not blank, and stays blank where there is none.
\<close>

fun ffill :: "cell \<Rightarrow> cell list \<Rightarrow> cell list" where
  "ffill prev [] = []"
| "ffill prev (x # xs) = (if x = Blank then prev # ffill prev xs else x # ffill x xs)"

definition fillna_ffill :: "('k, 'c, cell) table \<Rightarrow> ('k, 'c, cell) table" where
  "fillna_ffill df = \<lparr>index = index df, cols = map (\<lambda>(c, cells). (c, ffill Blank cells)) (cols df)\<rparr>"

text \<open>
  Line 134, \<open>set_index([a, b])\<close>: the two columns become the two-level row key and leave
  the columns; a name that is no column raises KeyError.
\<close>

definition set_index ::
    "string \<Rightarrow> string \<Rightarrow> ('k, string, cell) table \<Rightarrow> error + (cell \<times> cell, string, cell) table" where
  "set_index a b df =
     (case map_of (cols df) a of
        None \<Rightarrow> Inl KeyError
      | Some level0 \<Rightarrow>
          (case map_of (cols df) b of
             None \<Rightarrow> Inl KeyError
           | Some level1 \<Rightarrow>
               Inr \<lparr>index = zip level0 level1,
                    cols = filter (\<lambda>(c, cells). c \<noteq> a \<and> c \<noteq> b) (cols df)\<rparr>))"

text \<open>
  Line 136: \<open>cap['Total']\<close> is the column of that name as a series, and \<open>.loc['Campus']\<close>
  its entries with that first-level label, under their second-level label.  Either
  raises KeyError without a match.
\<close>

definition getitem_column :: "('k, 'c, 'v) table \<Rightarrow> 'c \<Rightarrow> error + ('k \<times> 'v) list" where
  "getitem_column df name =
     (case map_of (cols df) name of
        None \<Rightarrow> Inl KeyError
      | Some cells \<Rightarrow> Inr (zip (index df) cells))"

definition loc_level0 :: "(('a \<times> 'b) \<times> 'v) list \<Rightarrow> 'a \<Rightarrow> error + ('b \<times> 'v) list" where
  "loc_level0 s label =
     (if label \<notin> fst ` fst ` set s then Inl KeyError
      else Inr (map (\<lambda>((a, b), v). (b, v)) (filter (\<lambda>((a, b), v). a = label) s)))"

text \<open>Lines 126-140 for one workbook: what is appended to \<open>costs\<close>, \<open>esums\<close> and \<open>caps\<close>.\<close>

definition read_workbook ::
    "workbook \<Rightarrow>
       error + ((string, string, real option) table \<times> (cell \<times> cell, string, cell) table
                \<times> (string \<times> real option) list)" where
  "read_workbook xls =
     (case Costs xls of
        None \<Rightarrow> Inl XLRDError
      | Some cost \<Rightarrow>
          (case Commodity_sums xls of
             None \<Rightarrow> Inl XLRDError
           | Some esum \<Rightarrow>
               (case Process_caps xls of
                  None \<Rightarrow> Inl XLRDError
                | Some cap \<Rightarrow>
                    bindE (set_index ''index'' ''pro'' (fillna_ffill (reset_index esum))) (\<lambda>esum'.
                      bindE (getitem_column cap ''Total'') (\<lambda>total.
                        bindE (loc_level0 total ''Campus'') (\<lambda>cap'.
                          Inr (cost, esum', cap')))))))"

text \<open>
  The loop of lines 125-140.  The spreadsheets on disk are a partial map from file names
  to workbooks; a file that is not there raises.
\<close>

fun read_loop ::
    "(string \<Rightarrow> workbook option) \<Rightarrow> string list \<Rightarrow>
       (string, string, real option) table list \<Rightarrow> (cell \<times> cell, string, cell) table list \<Rightarrow>
       (string \<times> real option) list list \<Rightarrow>
       error + ((string, string, real option) table list
                \<times> (cell \<times> cell, string, cell) table list
                \<times> (string \<times> real option) list list)" where
  "read_loop xlsx [] costs esums caps = Inr (costs, esums, caps)"
| "read_loop xlsx (rf # rest) costs esums caps =
     (case xlsx rf of
        None \<Rightarrow> Inl FileNotFoundError
      | Some xls \<Rightarrow>
          bindE (read_workbook xls) (\<lambda>(cost, esum, cap).
            read_loop xlsx rest (costs @ [cost]) (esums @ [esum]) (caps @ [cap])))"

text \<open>The labels of a list in the order of their first occurrence.\<close>

definition unique :: "'a list \<Rightarrow> 'a list" where
  "unique xs = rev (remdups (rev xs))"

text \<open>
  \<open>pd.concat(objs, axis=1, keys=keys)\<close> puts the columns of the objects side by side.
  No objects raise ValueError.  The rows are those of the objects where all objects have
  the same row labels; otherwise they are the union of the labels, which needs the
  labels of every object to be pairwise different and raises without that.  The union
  is listed here in the order of first occurrence (pandas may sort it; no property below
  depends on the order of the rows).
\<close>

definition concat_index :: "'k list list \<Rightarrow> error + 'k list" where
  "concat_index indexes =
     (case indexes of
        [] \<Rightarrow> Inl ValueError
      | i0 # others \<Rightarrow>
          if \<forall>i\<in>set others. i = i0 then Inr i0
          else if \<exists>i\<in>set indexes. \<not> distinct i then Inl ValueError
          else Inr (unique (concat indexes)))"

text \<open>The cells of a column under new row labels; a label the column does not have gives NaN.\<close>

definition reindex :: "'v \<Rightarrow> 'k list \<Rightarrow> 'k list \<Rightarrow> 'v list \<Rightarrow> 'v list" where
  "reindex nan new old cells =
     (if new = old then cells
      else map (\<lambda>label. case map_of (zip old cells) label of None \<Rightarrow> nan | Some v \<Rightarrow> v) new)"

text \<open>
  For data frames every column of an object is a column of the merged table, under the
  two-level label made of the key of the object and the label of the column, the objects
  in the order of the list.  An object without columns adds none, and its key does not
  occur in the merged table.
\<close>

definition pd_concat ::
    "'v \<Rightarrow> ('k, 'c, 'v) table list \<Rightarrow> string list \<Rightarrow> error + ('k, string \<times> 'c, 'v) table" where
  "pd_concat nan objs keys =
     bindE (concat_index (map index objs)) (\<lambda>idx.
       Inr \<lparr>index = idx,
            cols = concat (map (\<lambda>(key, df).
                     map (\<lambda>(c, cells). ((key, c), reindex nan idx (index df) cells)) (cols df))
                   (zip keys objs))\<rparr>)"

text \<open>For series every object is one column of the merged table, labelled with its key.\<close>

definition pd_concat_series ::
    "'v \<Rightarrow> ('k \<times> 'v) list list \<Rightarrow> string list \<Rightarrow> error + ('k, string, 'v) table" where
  "pd_concat_series nan objs keys =
     bindE (concat_index (map (map fst) objs)) (\<lambda>idx.
       Inr \<lparr>index = idx,
            cols = map (\<lambda>(key, s). (key, reindex nan idx (map fst s) (map snd s)))
                   (zip keys objs)\<rparr>)"

text \<open>Lines 119-145.\<close>

definition merge_scenarios ::
    "(string \<Rightarrow> workbook option) \<Rightarrow> string list \<Rightarrow> string list \<Rightarrow>
       error + ((string, string \<times> string, real option) table
                \<times> (cell \<times> cell, string \<times> string, cell) table
                \<times> (string, string, real option) table)" where
  "merge_scenarios xlsx result_files scenario_names =
     bindE (read_loop xlsx result_files [] [] []) (\<lambda>(costs, esums, caps).
       bindE (pd_concat None costs scenario_names) (\<lambda>costs'.
         bindE (pd_concat Blank esums scenario_names) (\<lambda>esums'.
           bindE (pd_concat_series None caps scenario_names) (\<lambda>caps'.
             Inr (costs', esums', caps')))))"

subsection \<open>compare\_scenarios\<close>

text \<open>
  Lines 104-145.  The first component of the result is the content of the caller's list
  \<open>result_files\<close> when the function is left, by return or by an exception; nothing
  after line 117 changes that list.  The second component is the exception raised up to
  line 145, or the three merged tables with which the analysis of lines 147-192 starts;
  what follows (the analysis, the plots and the written report) can raise as well and
  returns nothing.
\<close>

definition compare_scenarios ::
    "(string \<Rightarrow> workbook option) \<Rightarrow> string list \<Rightarrow>
       string list \<times>
       (error + ((string, string \<times> string, real option) table
                 \<times> (cell \<times> cell, string \<times> string, cell) table
                 \<times> (string, string, real option) table))" where
  "compare_scenarios xlsx result_files =
     (let scenario_names = map scenario_name result_files
      in case prioritize_base result_files scenario_names of
           Inl e \<Rightarrow> (result_files, Inl e)
         | Inr (result_files', scenario_names') \<Rightarrow>
             (result_files', merge_scenarios xlsx result_files' scenario_names'))"

subsection \<open>compare\_scenarios: the views\<close>

text \<open>
  A data frame: the column labels, and the rows in order, each with its label and its
  cells; a missing cell (NaN) is \<open>None\<close>.
\<close>

record ('r, 'c) frame =
  columns :: "'c list"
  rows :: "('r \<times> ('c \<Rightarrow> real option)) list"

text \<open>\<open>df.loc[:, mask]\<close> for a mask over the columns.\<close>

definition loc_columns :: "('r, 'c) frame \<Rightarrow> ('c \<Rightarrow> bool) \<Rightarrow> ('r, 'c) frame" where
  "loc_columns df keep =
     \<lparr>columns = filter keep (columns df),
      rows = map (\<lambda>(r, cells). (r, \<lambda>c. if keep c then cells c else None)) (rows df)\<rparr>"

definition map_values :: "(real \<Rightarrow> real) \<Rightarrow> ('r, 'c) frame \<Rightarrow> ('r, 'c) frame" where
  "map_values f df =
     \<lparr>columns = columns df,
      rows = map (\<lambda>(r, cells). (r, \<lambda>c. map_option f (cells c))) (rows df)\<rparr>"

text \<open>
  The value of a reduction or of a comparison operand: a 64-bit float, which may be NaN or
  infinite, or a 64-bit integer; a finite value is given by the real number it denotes.
  \<open>x > t\<close> and \<open>x < t\<close> for a finite \<open>t\<close> are false when \<open>x\<close> is NaN.
\<close>

datatype number = NaN | Finite real | PosInf | NegInf

definition gt_py :: "number \<Rightarrow> real \<Rightarrow> bool" where
  "gt_py x t = (case x of NaN \<Rightarrow> False | Finite v \<Rightarrow> t < v | PosInf \<Rightarrow> True | NegInf \<Rightarrow> False)"

definition lt_py :: "number \<Rightarrow> real \<Rightarrow> bool" where
  "lt_py x t = (case x of NaN \<Rightarrow> False | Finite v \<Rightarrow> v < t | PosInf \<Rightarrow> False | NegInf \<Rightarrow> True)"

text \<open>
  \<open>DataFrame.sum()\<close> reduces the cells of each column, NaN included, to one number.  It
  adds in machine arithmetic, in doubles that round or in 64-bit integers that wrap, in
  an order the library chooses, so the reduction is the parameter \<open>sum_py\<close>: what is proved
  below holds for every reduction.
\<close>

definition column_sum :: "(real option list \<Rightarrow> number) \<Rightarrow> ('r, 'c) frame \<Rightarrow> 'c \<Rightarrow> number" where
  "column_sum sum_py df c = sum_py (map (\<lambda>(r, cells). cells c) (rows df))"

text \<open>
  The sum without rounding.  It is the sum the machine computes wherever no partial sum
  rounds or overflows, as for a single cell and for small integers; the examples use it
  there.
\<close>

definition exact_sum :: "real option list \<Rightarrow> number" where
  "exact_sum cells = Finite (sum_list (map (\<lambda>cell. case cell of None \<Rightarrow> 0 | Some v \<Rightarrow> v) cells))"



text \<open>
  The double that the literal \<open>0.1\<close> denotes: 3602879701896397 / 2^55, a little above one
  tenth.  \<open>- 0.1\<close> is its negative.
\<close>

definition double_0_1 :: real where
  "double_0_1 = 3602879701896397 / 36028797018963968"

text \<open>
  Lines 163-164.  \<open>created\<close> and \<open>consumed\<close> are the tables of lines 160-161, the second
  with its signs flipped.  The division by \<open>1e3\<close> rounds as well and is the parameter
  \<open>truediv\<close>.
\<close>

definition created_filter ::
    "(real option list \<Rightarrow> number) \<Rightarrow> (real \<Rightarrow> real \<Rightarrow> real) \<Rightarrow> ('r, 'c) frame \<Rightarrow> ('r, 'c) frame" where
  "created_filter sum_py truediv created =
     map_values (\<lambda>v. truediv v 1000)
       (loc_columns created (\<lambda>c. gt_py (column_sum sum_py created c) double_0_1))"

definition consumed_filter ::
    "(real option list \<Rightarrow> number) \<Rightarrow> (real \<Rightarrow> real \<Rightarrow> real) \<Rightarrow> ('r, 'c) frame \<Rightarrow> ('r, 'c) frame" where
  "consumed_filter sum_py truediv consumed =
     map_values (\<lambda>v. truediv v 1000)
       (loc_columns consumed (\<lambda>c. lt_py (column_sum sum_py consumed c) (- double_0_1)))"

text \<open>
  \<open>sort_index(ascending=[False, True])\<close> on a two-level row key: the first level
  descending, the second ascending.
\<close>

definition sort_index_desc_asc :: "(('a::linorder \<times> 'b::linorder) \<times> 'v) list \<Rightarrow> (('a \<times> 'b) \<times> 'v) list" where
  "sort_index_desc_asc rs = rev (sort_key (fst \<circ> fst) (rev (sort_key (snd \<circ> fst) rs)))"

definition sort_frame_desc_asc :: "(string \<times> string, 'c) frame \<Rightarrow> (string \<times> string, 'c) frame" where
  "sort_frame_desc_asc df = \<lparr>columns = columns df, rows = sort_index_desc_asc (rows df)\<rparr>"

text \<open>
  \<open>df.loc[(slice(None), commodity), column] = 0\<close>: the cell of that column becomes 0 in
  every row whose second-level key is the commodity; a commodity that is no second-level
  key raises KeyError.
\<close>

definition zero_commodity ::
    "string \<Rightarrow> string \<Rightarrow> (string \<times> string, string) frame \<Rightarrow> error + (string \<times> string, string) frame" where
  "zero_commodity commodity column df =
     (if commodity \<notin> snd ` fst ` set (rows df) then Inl KeyError
      else Inr
        \<lparr>columns = columns df,
         rows = map (\<lambda>((scenario, com), cells).
                  ((scenario, com), if com = commodity then cells(column \<mapsto> 0) else cells))
                  (rows df)\<rparr>)"

text \<open>Lines 183-188: the series twice, side by side, as the columns Battery and Reservoir.\<close>

definition split_storage ::
    "((string \<times> string) \<times> real option) list \<Rightarrow> error + (string \<times> string, string) frame" where
  "split_storage sto_sums =
     (let both =
        \<lparr>columns = [''Battery'', ''Reservoir''],
         rows = sort_key fst
                  (map (\<lambda>(key, v). (key, \<lambda>c. if c = ''Battery'' \<or> c = ''Reservoir'' then v else None))
                       sto_sums)\<rparr>
      in bindE (zero_commodity ''Elec'' ''Reservoir'' both) (\<lambda>df.
           bindE (zero_commodity ''Heat'' ''Battery'' df) (\<lambda>df.
             Inr (sort_frame_desc_asc df))))"

section \<open>Properties\<close>

subsection \<open>deduplicate\_legend\<close>

lemma dedup_loop_inv:
  "dedup_loop ps hs ls = (hs', ls') \<Longrightarrow> length hs = length ls \<Longrightarrow> distinct ls \<Longrightarrow>
     length hs' = length ls' \<and> distinct ls' \<and> set ls' = set ls \<union> snd ` set ps"
proof (induction ps arbitrary: hs ls)
  case Nil
  then show ?case by simp
next
  case (Cons p ps)
  obtain hdl lbl where p: "p = (hdl, lbl)" by (cases p)
  show ?case
  proof (cases "lbl \<in> set ls")
    case True
    with Cons.prems p have "dedup_loop ps hs ls = (hs', ls')" by simp
    from Cons.IH[OF this Cons.prems(2,3)] True p show ?thesis by auto
  next
    case False
    with Cons.prems p have "dedup_loop ps (hs @ [hdl]) (ls @ [lbl]) = (hs', ls')" by simp
    from Cons.IH[OF this] Cons.prems(2,3) False p show ?thesis by auto
  qed
qed

text \<open>
  Every pair the loop keeps was kept before, or is the first pair of the input that carries
  its label.
\<close>

lemma dedup_loop_first:
  "dedup_loop ps hs ls = (hs', ls') \<Longrightarrow> length hs = length ls \<Longrightarrow>
   (h, l) \<in> set (zip hs' ls') \<Longrightarrow>
     (h, l) \<in> set (zip hs ls) \<or>
     (l \<notin> set ls \<and> (\<exists>j<length ps. ps ! j = (h, l) \<and> (\<forall>k<j. snd (ps ! k) \<noteq> l)))"
proof (induction ps arbitrary: hs ls)
  case Nil
  then show ?case by simp
next
  case (Cons p ps)
  obtain hdl lbl where p: "p = (hdl, lbl)" by (cases p)
  show ?case
  proof (cases "lbl \<in> set ls")
    case True
    with Cons.prems p have run: "dedup_loop ps hs ls = (hs', ls')" by simp
    from Cons.IH[OF run Cons.prems(2,3)]
    show ?thesis
    proof
      assume "(h, l) \<in> set (zip hs ls)" then show ?thesis by simp
    next
      assume a: "l \<notin> set ls \<and> (\<exists>j<length ps. ps ! j = (h, l) \<and> (\<forall>k<j. snd (ps ! k) \<noteq> l))"
      then obtain j where j: "j < length ps" "ps ! j = (h, l)" "\<forall>k<j. snd (ps ! k) \<noteq> l" by blast
      from a True have ne: "lbl \<noteq> l" by auto
      have "Suc j < length (p # ps)" using j by simp
      moreover have "(p # ps) ! Suc j = (h, l)" using j by simp
      moreover have "\<forall>k<Suc j. snd ((p # ps) ! k) \<noteq> l"
        using j(3) ne p by (auto simp: nth_Cons split: nat.splits)
      ultimately show ?thesis using a by blast
    qed
  next
    case False
    with Cons.prems p have run: "dedup_loop ps (hs @ [hdl]) (ls @ [lbl]) = (hs', ls')" by simp
    have len: "length (hs @ [hdl]) = length (ls @ [lbl])" using Cons.prems(2) by simp
    from Cons.IH[OF run len Cons.prems(3)]
    show ?thesis
    proof
      assume "(h, l) \<in> set (zip (hs @ [hdl]) (ls @ [lbl]))"
      then have "(h, l) \<in> set (zip hs ls) \<or> (h, l) = (hdl, lbl)"
        using Cons.prems(2) by auto
      then show ?thesis
      proof
        assume "(h, l) \<in> set (zip hs ls)" then show ?thesis by simp
      next
        assume "(h, l) = (hdl, lbl)"
        then have "l \<notin> set ls" "(p # ps) ! 0 = (h, l)" using False p by auto
        then show ?thesis by (intro disjI2) auto 
      qed
    next
      assume a: "l \<notin> set (ls @ [lbl]) \<and> (\<exists>j<length ps. ps ! j = (h, l) \<and> (\<forall>k<j. snd (ps ! k) \<noteq> l))"
      then obtain j where j: "j < length ps" "ps ! j = (h, l)" "\<forall>k<j. snd (ps ! k) \<noteq> l" by blast
      from a have ne: "lbl \<noteq> l" by auto
      have "Suc j < length (p # ps)" using j by simp
      moreover have "(p # ps) ! Suc j = (h, l)" using j by simp
      moreover have "\<forall>k<Suc j. snd ((p # ps) ! k) \<noteq> l"
        using j(3) ne p by (auto simp: nth_Cons split: nat.splits)
      ultimately show ?thesis using a by auto
    qed
  qed
qed

lemma dedup_loop_distinct_id:
  "distinct (ls @ map snd ps) \<Longrightarrow> 
   dedup_loop ps hs ls = (hs @ map fst ps, ls @ map snd ps)"
  by (induction ps arbitrary: hs ls) auto

lemma map_fst_sort_key_fst: "map fst (sort_key fst xs) = sort (map fst xs)"
proof (rule properties_for_sort [symmetric])
  show "mset (map fst (sort_key fst xs)) = mset (map fst xs)" by simp
  show "sorted (map fst (sort_key fst xs))" by (rule sorted_sort_key)
qed

text \<open>
  Where handles have an order, Python compares the tuples lexicographically.  On pairs
  with pairwise different labels that sort is the sort on the label alone, so the model
  needs no order on handles.
\<close>

lemma sorted_pairs_if_sorted_labels:
  fixes ps :: "(string \<times> 'h::linorder) list"
  assumes "sorted (map fst ps)" and "distinct (map fst ps)"
  shows "sorted ps"
  using assms
proof (induction ps)
  case Nil
  then show ?case by simp
next
  case (Cons p ps)
  have "p \<le> q" if "q \<in> set ps" for q
  proof -
    from that Cons.prems have "fst p \<le> fst q" "fst p \<noteq> fst q" by auto
    then have "fst p < fst q" by simp
    then show ?thesis by (simp add: less_eq_prod_def)
  qed
  with Cons show ?case by simp
qed

lemma tuple_sort_is_label_sort:
  fixes ps :: "(string \<times> 'h::linorder) list"
  assumes "distinct (map fst ps)"
  shows "sort ps = sort_key fst ps"
proof (rule properties_for_sort)
  show "mset (sort_key fst ps) = mset ps" by simp
  have "sorted (map fst (sort_key fst ps))" by (rule sorted_sort_key)
  moreover have "distinct (map fst (sort_key fst ps))"
    using assms by (metis distinct_map distinct_sort set_sort)
  ultimately show "sorted (sort_key fst ps)" by (rule sorted_pairs_if_sorted_labels)
qed

lemma snd_set_zip: "length xs = length ys \<Longrightarrow> snd ` set (zip xs ys) = set ys"
  by (metis map_snd_zip set_map)

text \<open>
  Claim C6.  For handles and labels of equal length, not empty, \<open>deduplicate_legend\<close>
  returns; the labels returned are the different labels of the input in ascending
  lexicographic order; each of them comes with the handle at the first position of that
  label in the input; the result is no longer than the input; and when the input labels
  are pairwise different the result is a sorted permutation of the input pairs.
\<close>

theorem deduplicate_legend_sorted_distinct:
  assumes len: "length handles = length labels" and ne: "labels \<noteq> []"
  shows "\<exists>hs ls. deduplicate_legend handles labels = Inr (hs, ls)
     \<and> ls = sorted_list_of_set (set labels)
     \<and> length hs = length ls
     \<and> (\<forall>i<length ls. \<exists>j<length labels.
           labels ! j = ls ! i \<and> (\<forall>k<j. labels ! k \<noteq> ls ! i) \<and> hs ! i = handles ! j)
     \<and> length ls \<le> length labels
     \<and> (distinct labels \<longrightarrow> sorted ls \<and> mset (zip hs ls) = mset (zip handles labels))"
proof -
  obtain nh nl where run: "dedup_loop (zip handles labels) [] [] = (nh, nl)"
    by (cases "dedup_loop (zip handles labels) [] []")
  define pairs where "pairs = sort_key fst (zip nl nh)"
  have inv0: "length nh = length nl \<and> distinct nl \<and> set nl = set [] \<union> snd ` set (zip handles labels)"
    by (rule dedup_loop_inv [OF run]) simp_all
  have inv: "length nh = length nl" "distinct nl" "set nl = set labels"
    using inv0 snd_set_zip [OF len] by simp_all
  have nl_ne: "nl \<noteq> []" using inv(3) ne by auto
  have pairs_ne: "pairs \<noteq> []"
    using nl_ne inv(1) by (cases nl; cases nh) (auto simp: pairs_def)
  have res: "deduplicate_legend handles labels = Inr (map snd pairs, map fst pairs)"
    using pairs_ne by (simp add: deduplicate_legend_def run pairs_def Let_def)
  have fst_pairs: "map fst pairs = sort nl"
    using inv(1) by (simp add: pairs_def map_fst_sort_key_fst)
  have ls_eq: "map fst pairs = sorted_list_of_set (set labels)"
    using fst_pairs inv(2,3) by (metis sorted_list_of_set_sort_remdups distinct_remdups_id)
  have set_pairs: "set pairs = set (zip nl nh)" by (simp add: pairs_def)
  have first: "\<exists>j<length labels. labels ! j = map fst pairs ! i
        \<and> (\<forall>k<j. labels ! k \<noteq> map fst pairs ! i) \<and> map snd pairs ! i = handles ! j"
    if i: "i < length (map fst pairs)" for i
  proof -
    from i have "pairs ! i \<in> set (zip nl nh)" using set_pairs by (metis length_map nth_mem)
    then have "(snd (pairs ! i), fst (pairs ! i)) \<in> set (zip nh nl)"
      by (metis in_set_zip prod.collapse fst_conv snd_conv)
    from dedup_loop_first [OF run _ this]
    obtain j where j: "j < length (zip handles labels)"
        "zip handles labels ! j = (snd (pairs ! i), fst (pairs ! i))"
        "\<forall>k<j. snd (zip handles labels ! k) \<noteq> fst (pairs ! i)"
      by auto
    have jl: "j < length labels" using j(1) by simp
    have "labels ! j = fst (pairs ! i)" "handles ! j = snd (pairs ! i)"
      using j(1,2) by auto
    moreover have "\<forall>k<j. labels ! k \<noteq> fst (pairs ! i)"
      using j(1,3) by auto
    ultimately show ?thesis using jl i by auto
  qed
  have le: "length (map fst pairs) \<le> length labels"
    unfolding ls_eq by (simp add: card_length)
  have perm: "sorted (map fst pairs) \<and> mset (zip (map snd pairs) (map fst pairs)) = mset (zip handles labels)"
    if d: "distinct labels"
  proof -
    have "dedup_loop (zip handles labels) [] [] = ([] @ map fst (zip handles labels), [] @ map snd (zip handles labels))"
      by (rule dedup_loop_distinct_id) (simp add: len d)
    with run len have eq: "nh = handles" "nl = labels" by simp_all
    have "zip (map snd pairs) (map fst pairs) = map (\<lambda>(l, h). (h, l)) pairs"
      by (induction pairs) auto
    then have "mset (zip (map snd pairs) (map fst pairs)) = image_mset (\<lambda>(l, h). (h, l)) (mset (zip nl nh))"
      by (simp add: pairs_def)
    also have "\<dots> = mset (map (\<lambda>(l, h). (h, l)) (zip nl nh))" by simp
    also have "map (\<lambda>(l, h). (h, l)) (zip nl nh) = zip nh nl"
      using inv(1) by (induction nh nl rule: list_induct2) auto
    finally have "mset (zip (map snd pairs) (map fst pairs)) = mset (zip handles labels)"
      using eq by simp
    moreover have "sorted (map fst pairs)" unfolding ls_eq by simp
    ultimately show ?thesis by simp
  qed
  have len_eq: "length (map snd pairs) = length (map fst pairs)" by simp
  from res ls_eq len_eq first le perm show ?thesis by blast
qed

theorem deduplicate_legend_sorted_distinct_witness:
  "\<exists>hs ls. deduplicate_legend [1, 2, 3::nat] [''wind'', ''gas'', ''solar''] = Inr (hs, ls)
     \<and> ls = sorted_list_of_set (set [''wind'', ''gas'', ''solar''])
     \<and> sorted ls
     \<and> mset (zip hs ls) = mset (zip [1, 2, 3] [''wind'', ''gas'', ''solar''])"
proof -
  have h1: "length [1, 2, 3::nat] = length [''wind'', ''gas'', ''solar'']" by simp
  have h2: "[''wind'', ''gas'', ''solar''] \<noteq> []" by simp
  have h3: "distinct [''wind'', ''gas'', ''solar'']" by simp
  from deduplicate_legend_sorted_distinct [OF h1 h2] h3 show ?thesis by blast
qed

text \<open>An input with a repeated label: the handle of the first \<open>b\<close> survives.\<close>

lemma deduplicate_legend_example:
  "deduplicate_legend [1, 2, 3::nat] [''b'', ''a'', ''b''] = Inr ([2, 1], [''a'', ''b''])"
  by code_simp

text \<open>
  Claim C7.  The claim says that two empty sequences give a pair of empty sequences
  without an error.  On the code the loop keeps nothing, \<open>zip(*sorted(zip([], [])))\<close>
  yields nothing, and unpacking into \<open>new_labels, new_handles\<close> raises ValueError.
\<close>

theorem deduplicate_legend_empty_raises:
  "deduplicate_legend [] [] = Inl ValueError"
  by (simp add: deduplicate_legend_def)

subsection \<open>group\_hbar\_plots\<close>

lemma place_patches_ok:
  assumes "group_size \<noteq> 0"
  shows "\<exists>ps'. place_patches bar_height inner_sep group_size row ps = Inr ps'
     \<and> length ps' = length ps
     \<and> (\<forall>i<length ps.
          get_y (ps' ! i) =
            of_int (int (row + i) mod group_size) * (bar_height + inner_sep)
            + group_offset bar_height inner_sep group_size (int (row + i) div group_size)
          \<and> get_height (ps' ! i) = get_height (ps ! i))"
proof (induction ps arbitrary: row)
  case Nil
  then show ?case by simp
next
  case (Cons p ps)
  from Cons.IH [of "Suc row"] obtain ps' where
    ps': "place_patches bar_height inner_sep group_size (Suc row) ps = Inr ps'"
      "length ps' = length ps"
      "\<forall>i<length ps.
          get_y (ps' ! i) =
            of_int (int (Suc row + i) mod group_size) * (bar_height + inner_sep)
            + group_offset bar_height inner_sep group_size (int (Suc row + i) div group_size)
          \<and> get_height (ps' ! i) = get_height (ps ! i)"
    by blast
  define v where "v = of_int (int row mod group_size) * (bar_height + inner_sep)
            + group_offset bar_height inner_sep group_size (int row div group_size)"
  have off: "patch_offset bar_height inner_sep group_size row = Inr v"
    using assms by (simp add: patch_offset_def divmod_py_def bindE_def v_def)
  have run: "place_patches bar_height inner_sep group_size row (p # ps) = Inr (set_y v p # ps')"
    by (simp add: off ps'(1) bindE_def)
  have "get_y ((set_y v p # ps') ! i) =
            of_int (int (row + i) mod group_size) * (bar_height + inner_sep)
            + group_offset bar_height inner_sep group_size (int (row + i) div group_size)
          \<and> get_height ((set_y v p # ps') ! i) = get_height ((p # ps) ! i)"
    if "i < length (p # ps)" for i
  proof (cases i)
    case 0
    then show ?thesis by (simp add: set_y_def v_def)
  next
    case (Suc k)
    with that have "k < length ps" by simp
    with ps'(3) Suc show ?thesis by simp
  qed
  with run ps'(2) show ?case by simp
qed

lemma place_handles_ok:
  assumes "group_size \<noteq> 0"
  shows "\<exists>hs'. place_handles bar_height inner_sep group_size hs = Inr hs'
     \<and> length hs' = length hs
     \<and> (\<forall>c<length hs. length (hs' ! c) = length (hs ! c)
          \<and> (\<forall>r<length (hs ! c).
               get_y (hs' ! c ! r) =
                 of_int (int r mod group_size) * (bar_height + inner_sep)
                 + group_offset bar_height inner_sep group_size (int r div group_size)
               \<and> get_height (hs' ! c ! r) = get_height (hs ! c ! r)))"
proof (induction hs)
  case Nil
  then show ?case by simp
next
  case (Cons h hs)
  from place_patches_ok [OF assms, of bar_height inner_sep 0 h] obtain h' where
    h': "place_patches bar_height inner_sep group_size 0 h = Inr h'" "length h' = length h"
      "\<forall>i<length h.
          get_y (h' ! i) =
            of_int (int i mod group_size) * (bar_height + inner_sep)
            + group_offset bar_height inner_sep group_size (int i div group_size)
          \<and> get_height (h' ! i) = get_height (h ! i)"
    by auto
  from Cons.IH obtain hs' where
    hs': "place_handles bar_height inner_sep group_size hs = Inr hs'" "length hs' = length hs"
      "\<forall>c<length hs. length (hs' ! c) = length (hs ! c)
          \<and> (\<forall>r<length (hs ! c).
               get_y (hs' ! c ! r) =
                 of_int (int r mod group_size) * (bar_height + inner_sep)
                 + group_offset bar_height inner_sep group_size (int r div group_size)
               \<and> get_height (hs' ! c ! r) = get_height (hs ! c ! r))"
    by blast
  have run: "place_handles bar_height inner_sep group_size (h # hs) = Inr (h' # hs')"
    by (simp add: h'(1) hs'(1) bindE_def)
  have "length ((h' # hs') ! c) = length ((h # hs) ! c)
          \<and> (\<forall>r<length ((h # hs) ! c).
               get_y ((h' # hs') ! c ! r) =
                 of_int (int r mod group_size) * (bar_height + inner_sep)
                 + group_offset bar_height inner_sep group_size (int r div group_size)
               \<and> get_height ((h' # hs') ! c ! r) = get_height ((h # hs) ! c ! r))"
    if "c < length (h # hs)" for c
  proof (cases c)
    case 0
    then show ?thesis using h'(2,3) by simp
  next
    case (Suc k)
    with that have "k < length hs" by simp
    with hs'(3) Suc show ?thesis by simp
  qed
  with run hs'(2) show ?case by simp
qed

text \<open>
  With a first patch to read the bar height from and a group size other than zero,
  \<open>group_hbar_plots\<close> returns, keeps the shape of the handles and the heights of the
  patches, and gives the patch at row \<open>r\<close> of every handle the offset
  \<open>row_within_group * (bar_height + inner_sep) + group_offset\<close> with
  \<open>(group_number, row_within_group) = divmod(r, group_size)\<close>, where \<open>inner_sep\<close> is the
  value after lines 72-73.
\<close>

lemma group_hbar_plots_offsets:
  assumes "handles \<noteq> []" and "hd handles \<noteq> []" and "group_size \<noteq> 0"
    and "bar_height = get_height (hd (hd handles))"
    and "sep = effective_inner_sep inner_sep bar_height"
  shows "\<exists>hs'. group_hbar_plots handles group_size inner_sep = Inr hs'
     \<and> length hs' = length handles
     \<and> (\<forall>c<length handles. length (hs' ! c) = length (handles ! c)
          \<and> (\<forall>r<length (handles ! c).
               get_y (hs' ! c ! r) =
                 of_int (int r mod group_size) * (bar_height + sep)
                 + group_offset bar_height sep group_size (int r div group_size)
               \<and> get_height (hs' ! c ! r) = get_height (handles ! c ! r)))"
proof -
  obtain p0 h0 rest where hs: "handles = (p0 # h0) # rest"
    using assms(1,2) by (cases handles; cases "hd handles") auto
  have "group_hbar_plots handles group_size inner_sep
          = place_handles bar_height sep group_size handles"
    unfolding assms(4,5) hs
    by (simp add: group_hbar_plots_def Let_def del: place_handles.simps)
  with place_handles_ok [OF assms(3), of bar_height sep handles] show ?thesis
    by (simp del: place_handles.simps)
qed

text \<open>
  Claim C8.  The claim gives every patch the offset of the formula at the \<open>inner_sep\<close>
  passed in, and the default only when none is passed.  Line 72 tests \<open>not inner_sep\<close>,
  which also holds for a separation of zero: with bars of height 1/2 in groups of three
  and \<open>inner_sep = 0\<close> the code places rows 0 and 2 at 0 and 3/2, the offsets of the
  default separation 1/4, where the formula at separation 0 gives 1/4 and 5/4.
\<close>

theorem group_hbar_plots_zero_inner_sep_ignored:
  "group_hbar_plots [[Patch 0 (1/2), Patch 1 (1/2), Patch 2 (1/2)]] 3 (Some 0)
     = Inr [[Patch 0 (1/2), Patch (3/4) (1/2), Patch (3/2) (1/2)]]
   \<and> of_int (0 mod 3) * (1/2 + 0) + group_offset (1/2) 0 3 (0 div 3) = 1/4
   \<and> of_int (2 mod 3) * (1/2 + 0) + group_offset (1/2) 0 3 (2 div 3) = 5/4"
  by (simp add: group_hbar_plots_def effective_inner_sep_def patch_offset_def divmod_py_def
      bindE_def set_y_def group_offset_def Let_def)

text \<open>
  Claim C9, as stated, fails: with bars of height 1/2 and \<open>inner_sep = 1\<close> the rows of a
  group are 3/2 apart, and row 3 lands on the offset of row 2.
\<close>

theorem group_hbar_plots_row3_counterexample:
  "group_hbar_plots [[Patch 0 (1/2), Patch 1 (1/2), Patch 2 (1/2), Patch 3 (1/2)]] 3 (Some 1)
     = Inr [[Patch (- (3/4)) (1/2), Patch (3/4) (1/2), Patch (9/4) (1/2), Patch (9/4) (1/2)]]
   \<and> \<not> get_y ([Patch (- (3/4)) (1/2), Patch (3/4) (1/2), Patch (9/4) (1/2), Patch (9/4) (1/2)] ! 2)
        < get_y ([Patch (- (3/4)) (1/2), Patch (3/4) (1/2), Patch (9/4) (1/2), Patch (9/4) (1/2)] ! 3)"
  by (simp add: group_hbar_plots_def effective_inner_sep_def patch_offset_def divmod_py_def
      bindE_def set_y_def group_offset_def Let_def)

text \<open>
  Claim C9, amended.  Let the group size be 3, let the bar height and a separation that
  is passed in be multiples of 1/1024 of magnitude at most 1024 (the arithmetic of lines
  73-84 is exact on them), and let \<open>bar_height + inner_sep > 0\<close> for the separation in
  effect after lines 72-73.  Then in every handle with at least four rows the offsets of
  rows 0, 1 and 2 are strictly increasing and lie between \<open>group_offset\<close> and
  \<open>group_offset + 2 * (bar_height + inner_sep)\<close> for the group offset of group 0, and the
  offset of row 3 is strictly greater than that of row 2 exactly when
  \<open>2 * (bar_height + inner_sep) < 3\<close>.
\<close>

theorem group_hbar_plots_group_size_3:
  assumes c: "c < length handles" and rows: "4 \<le> length (handles ! c)"
    and first: "hd handles \<noteq> []"
    and bh: "bar_height = get_height (hd (hd handles))"
    and exact_height: "bar_height * 1024 \<in> \<int> \<and> \<bar>bar_height\<bar> \<le> 1024"
    and exact_sep: "\<forall>s. inner_sep = Some s \<longrightarrow> s * 1024 \<in> \<int> \<and> \<bar>s\<bar> \<le> 1024"
    and sep: "sep = effective_inner_sep inner_sep bar_height"
    and pos: "0 < bar_height + sep"
  shows "\<exists>hs'. group_hbar_plots handles 3 inner_sep = Inr hs'
     \<and> get_y (hs' ! c ! 0) < get_y (hs' ! c ! 1)
     \<and> get_y (hs' ! c ! 1) < get_y (hs' ! c ! 2)
     \<and> (\<forall>r<3. group_offset bar_height sep 3 0 \<le> get_y (hs' ! c ! r)
             \<and> get_y (hs' ! c ! r) \<le> group_offset bar_height sep 3 0 + 2 * (bar_height + sep))
     \<and> ((get_y (hs' ! c ! 2) < get_y (hs' ! c ! 3)) = (2 * (bar_height + sep) < 3))"
proof -
  have ne: "handles \<noteq> []" using c by auto
  have gs: "(3::int) \<noteq> 0" by simp
  from group_hbar_plots_offsets [OF ne first gs bh sep] obtain hs' where
    run: "group_hbar_plots handles 3 inner_sep = Inr hs'" and
    ys: "\<forall>c<length handles. length (hs' ! c) = length (handles ! c)
          \<and> (\<forall>r<length (handles ! c).
               get_y (hs' ! c ! r) =
                 of_int (int r mod 3) * (bar_height + sep)
                 + group_offset bar_height sep 3 (int r div 3)
               \<and> get_height (hs' ! c ! r) = get_height (handles ! c ! r))"
    by blast
  have y: "get_y (hs' ! c ! r) =
             of_int (int r mod 3) * (bar_height + sep) + group_offset bar_height sep 3 (int r div 3)"
    if "r < 4" for r
    using ys c rows that by auto
  have y0: "get_y (hs' ! c ! 0) = group_offset bar_height sep 3 0"
    using y [of 0] by simp
  have y1: "get_y (hs' ! c ! 1) = (bar_height + sep) + group_offset bar_height sep 3 0"
    using y [of 1] by simp
  have y2: "get_y (hs' ! c ! 2) = 2 * (bar_height + sep) + group_offset bar_height sep 3 0"
    using y [of 2] by simp
  have y3: "get_y (hs' ! c ! 3) = 3 + group_offset bar_height sep 3 0"
    using y [of 3] by (simp add: group_offset_def)
  have incr01: "get_y (hs' ! c ! 0) < get_y (hs' ! c ! 1)"
    using pos unfolding y0 y1 by linarith
  have incr12: "get_y (hs' ! c ! 1) < get_y (hs' ! c ! 2)"
    using pos unfolding y1 y2 by simp
  have within: "group_offset bar_height sep 3 0 \<le> get_y (hs' ! c ! r)
             \<and> get_y (hs' ! c ! r) \<le> group_offset bar_height sep 3 0 + 2 * (bar_height + sep)"
    if "r < 3" for r
  proof -
    from that have "r = 0 \<or> r = 1 \<or> r = 2" by auto
    then show ?thesis
    proof (elim disjE)
      assume "r = 0" then show ?thesis using pos y0 by simp
    next
      assume "r = 1" then show ?thesis using pos y1 by simp
    next
      assume "r = 2" then show ?thesis using pos y2 by simp
    qed
  qed
  have next_group: "(get_y (hs' ! c ! 2) < get_y (hs' ! c ! 3)) = (2 * (bar_height + sep) < 3)"
    unfolding y2 y3 by linarith
  from run incr01 incr12 within next_group show ?thesis by blast
qed

theorem group_hbar_plots_group_size_3_witness:
  "\<exists>hs'. group_hbar_plots [[Patch 0 (1/2), Patch 1 (1/2), Patch 2 (1/2), Patch 3 (1/2)]] 3 None = Inr hs'
     \<and> get_y (hs' ! 0 ! 0) < get_y (hs' ! 0 ! 1)
     \<and> get_y (hs' ! 0 ! 1) < get_y (hs' ! 0 ! 2)
     \<and> get_y (hs' ! 0 ! 2) < get_y (hs' ! 0 ! 3)"
proof -
  let ?hs = "[[Patch 0 (1/2), Patch 1 (1/2), Patch 2 (1/2), Patch 3 (1/2)]]"
  have "\<exists>hs'. group_hbar_plots ?hs 3 None = Inr hs'
     \<and> get_y (hs' ! 0 ! 0) < get_y (hs' ! 0 ! 1)
     \<and> get_y (hs' ! 0 ! 1) < get_y (hs' ! 0 ! 2)
     \<and> (\<forall>r<3. group_offset (1/2) (1/4) 3 0 \<le> get_y (hs' ! 0 ! r)
             \<and> get_y (hs' ! 0 ! r) \<le> group_offset (1/2) (1/4) 3 0 + 2 * (1/2 + 1/4))
     \<and> ((get_y (hs' ! 0 ! 2) < get_y (hs' ! 0 ! 3)) = (2 * (1/2 + 1/4) < (3::real)))"
    by (rule group_hbar_plots_group_size_3)
      (simp_all add: effective_inner_sep_def)
  then show ?thesis by auto
qed

subsection \<open>The base scenario\<close>

text \<open>\<open>list.index\<close> finds the first position of a value, and raises ValueError without one.\<close>

lemma index_py_found:
  "x \<in> set xs \<Longrightarrow> \<exists>i<length xs. index_py xs x = Inr i \<and> xs ! i = x \<and> (\<forall>k<i. xs ! k \<noteq> x)"
proof (induction xs)
  case Nil
  then show ?case by simp
next
  case (Cons y ys)
  show ?case
  proof (cases "y = x")
    case True
    then show ?thesis by auto
  next
    case False
    with Cons.prems have "x \<in> set ys" by simp
    from Cons.IH [OF this] obtain i where
      i: "i < length ys" "index_py ys x = Inr i" "ys ! i = x" "\<forall>k<i. ys ! k \<noteq> x" by blast
    have "index_py (y # ys) x = Inr (Suc i)" using False i(2) by (simp add: bindE_def)
    moreover have "\<forall>k<Suc i. (y # ys) ! k \<noteq> x"
      using False i(4) by (auto simp: nth_Cons split: nat.splits)
    ultimately show ?thesis using i(1,3) by (intro exI [of _ "Suc i"]) simp
  qed
qed

lemma index_py_absent: "x \<notin> set xs \<Longrightarrow> index_py xs x = Inl ValueError"
  by (induction xs) (auto simp: bindE_def)

lemma prioritize_base_present:
  assumes "length result_files = length scenario_names" and "''base'' \<in> set scenario_names"
  shows "\<exists>i<length scenario_names. scenario_names ! i = ''base''
           \<and> (\<forall>k<i. scenario_names ! k \<noteq> ''base'')
           \<and> prioritize_base result_files scenario_names =
               Inr (result_files ! i # take i result_files @ drop (Suc i) result_files,
                    ''base'' # take i scenario_names @ drop (Suc i) scenario_names)"
proof -
  from index_py_found [OF assms(2)] obtain i where
    i: "i < length scenario_names" "index_py scenario_names ''base'' = Inr i"
       "scenario_names ! i = ''base''" "\<forall>k<i. scenario_names ! k \<noteq> ''base''" by blast
  have "prioritize_base result_files scenario_names =
               Inr (result_files ! i # take i result_files @ drop (Suc i) result_files,
                    ''base'' # take i scenario_names @ drop (Suc i) scenario_names)"
    using i(1,3) assms(1) by (simp add: prioritize_base_def i(2) pop_py_def insert_py_def bindE_def)
  with i show ?thesis by blast
qed

lemma prioritize_base_absent:
  assumes "''base'' \<notin> set scenario_names"
  shows "prioritize_base result_files scenario_names = Inr (result_files, scenario_names)"
  by (simp add: prioritize_base_def index_py_absent [OF assms])

text \<open>
  Claim C2.  For scenario names as long as the list of result files: when some name is
  \<open>base\<close>, the first such entry and the result file at its position are moved to position 0
  and the other entries of both lists keep their order; when no name is \<open>base\<close>, the
  ValueError of the lookup is caught and both lists are as before.
\<close>

theorem prioritize_base_moves_first_base:
  assumes "length result_files = length scenario_names"
  shows "(''base'' \<in> set scenario_names \<longrightarrow>
           (\<exists>i<length scenario_names. scenario_names ! i = ''base''
              \<and> (\<forall>k<i. scenario_names ! k \<noteq> ''base'')
              \<and> prioritize_base result_files scenario_names =
                  Inr (result_files ! i # take i result_files @ drop (Suc i) result_files,
                       ''base'' # take i scenario_names @ drop (Suc i) scenario_names)))
       \<and> (''base'' \<notin> set scenario_names \<longrightarrow>
            prioritize_base result_files scenario_names = Inr (result_files, scenario_names))"
  using prioritize_base_present [OF assms] prioritize_base_absent by blast

theorem prioritize_base_moves_first_base_witness:
  "prioritize_base [''f1'', ''f2'', ''f3''] [''b'', ''base'', ''a'']
      = Inr ([''f2'', ''f1'', ''f3''], [''base'', ''b'', ''a''])
   \<and> prioritize_base [''f1'', ''f2''] [''x'', ''y''] = Inr ([''f1'', ''f2''], [''x'', ''y''])"
proof -
  have len1: "length [''f1'', ''f2'', ''f3''] = length [''b'', ''base'', ''a'']" by simp
  have len2: "length [''f1'', ''f2''] = length [''x'', ''y'']" by simp
  have in1: "''base'' \<in> set [''b'', ''base'', ''a'']" by simp
  have out2: "''base'' \<notin> set [''x'', ''y'']" by simp
  from prioritize_base_moves_first_base [OF len1] in1 obtain i where
    i: "i < length [''b'', ''base'', ''a'']" "[''b'', ''base'', ''a''] ! i = ''base''"
       "prioritize_base [''f1'', ''f2'', ''f3''] [''b'', ''base'', ''a''] =
          Inr ([''f1'', ''f2'', ''f3''] ! i # take i [''f1'', ''f2'', ''f3''] @ drop (Suc i) [''f1'', ''f2'', ''f3''],
               ''base'' # take i [''b'', ''base'', ''a''] @ drop (Suc i) [''b'', ''base'', ''a''])"
    by blast
  from i(1) have "i = 0 \<or> i = 1 \<or> i = 2" by auto
  with i(2) have "i = 1" by auto
  with i(3) have first: "prioritize_base [''f1'', ''f2'', ''f3''] [''b'', ''base'', ''a'']
      = Inr ([''f2'', ''f1'', ''f3''], [''base'', ''b'', ''a''])" by simp
  from prioritize_base_moves_first_base [OF len2] out2
  have "prioritize_base [''f1'', ''f2''] [''x'', ''y''] = Inr ([''f1'', ''f2''], [''x'', ''y''])"
    by blast
  with first show ?thesis by simp
qed

text \<open>
  Claim C10.  The caller's list \<open>result_files\<close> after a call of \<open>compare_scenarios\<close>,
  whether the call returns or raises: with a scenario named \<open>base\<close> the workbook of the
  first one has been popped and inserted at position 0, without one the list is unchanged.
\<close>

theorem compare_scenarios_mutates_result_files:
  "(''base'' \<in> set (map scenario_name result_files) \<longrightarrow>
      (\<exists>i<length result_files. scenario_name (result_files ! i) = ''base''
         \<and> (\<forall>k<i. scenario_name (result_files ! k) \<noteq> ''base'')
         \<and> fst (compare_scenarios xlsx result_files) =
             result_files ! i # take i result_files @ drop (Suc i) result_files))
   \<and> (''base'' \<notin> set (map scenario_name result_files) \<longrightarrow>
        fst (compare_scenarios xlsx result_files) = result_files)"
proof (intro conjI impI)
  assume b: "''base'' \<in> set (map scenario_name result_files)"
  have len: "length result_files = length (map scenario_name result_files)" by simp
  from prioritize_base_present [OF len b] obtain i where
    i: "i < length result_files" "map scenario_name result_files ! i = ''base''"
       "\<forall>k<i. map scenario_name result_files ! k \<noteq> ''base''"
       "prioritize_base result_files (map scenario_name result_files) =
               Inr (result_files ! i # take i result_files @ drop (Suc i) result_files,
                    ''base'' # take i (map scenario_name result_files) @ drop (Suc i) (map scenario_name result_files))"
    by auto
  have "fst (compare_scenarios xlsx result_files) =
             result_files ! i # take i result_files @ drop (Suc i) result_files"
    by (simp add: compare_scenarios_def Let_def i(4))
  moreover have "scenario_name (result_files ! i) = ''base''" using i(1,2) by simp
  moreover have "\<forall>k<i. scenario_name (result_files ! k) \<noteq> ''base''" using i(1,3) by simp
  ultimately show "\<exists>i<length result_files. scenario_name (result_files ! i) = ''base''
         \<and> (\<forall>k<i. scenario_name (result_files ! k) \<noteq> ''base'')
         \<and> fst (compare_scenarios xlsx result_files) =
             result_files ! i # take i result_files @ drop (Suc i) result_files"
    using i(1) by blast
next
  assume "''base'' \<notin> set (map scenario_name result_files)"
  from prioritize_base_absent [OF this]
  show "fst (compare_scenarios xlsx result_files) = result_files"
    by (simp add: compare_scenarios_def Let_def)
qed

theorem compare_scenarios_mutates_result_files_witness:
  "fst (compare_scenarios (\<lambda>rf. None) [''result/scenario_altA.xlsx'', ''result/scenario_base.xlsx''])
     = [''result/scenario_base.xlsx'', ''result/scenario_altA.xlsx'']
   \<and> fst (compare_scenarios (\<lambda>rf. None) [''result/scenario_altA.xlsx'', ''result/scenario_altB.xlsx''])
     = [''result/scenario_altA.xlsx'', ''result/scenario_altB.xlsx'']"
proof -
  let ?a = "''result/scenario_altA.xlsx''" and ?b = "''result/scenario_base.xlsx''"
  let ?c = "''result/scenario_altB.xlsx''"
  have na: "scenario_name ?a = ''altA''" by code_simp
  have nb: "scenario_name ?b = ''base''" by code_simp
  have nc: "scenario_name ?c = ''altB''" by code_simp
  have "''base'' \<in> set (map scenario_name [?a, ?b])" by (simp add: nb)
  with compare_scenarios_mutates_result_files [of "[?a, ?b]" "\<lambda>rf. None"] obtain i where
    i: "i < length [?a, ?b]" "scenario_name ([?a, ?b] ! i) = ''base''"
       "fst (compare_scenarios (\<lambda>rf. None) [?a, ?b]) = [?a, ?b] ! i # take i [?a, ?b] @ drop (Suc i) [?a, ?b]"
    by blast
  from i(1) have "i = 0 \<or> i = 1" by auto
  with i(2) na have "i = 1" by auto
  with i(3) have first: "fst (compare_scenarios (\<lambda>rf. None) [?a, ?b]) = [?b, ?a]" by simp
  have "''base'' \<notin> set (map scenario_name [?a, ?c])" by (simp add: na nc)
  with compare_scenarios_mutates_result_files [of "[?a, ?c]" "\<lambda>rf. None"]
  have "fst (compare_scenarios (\<lambda>rf. None) [?a, ?c]) = [?a, ?c]" by blast
  with first show ?thesis by simp
qed

subsection \<open>Reading and merging\<close>














text \<open>
  The cells of a merged column are the cells of the object's column, each under its row
  label; a row label that the object does not have gets NaN.
\<close>

lemma reindex_present:
  assumes "distinct old" and "length cells = length old"
    and "j < length old" and "i < length new" and "new ! i = old ! j"
  shows "reindex nan new old cells ! i = cells ! j"
proof (cases "new = old")
  case True
  with assms(1,3,4,5) have "i = j" by (simp add: nth_eq_iff_index_eq)
  with True show ?thesis by (simp add: reindex_def)
next
  case False
  have "(old ! j, cells ! j) \<in> set (zip old cells)"
    using assms(2,3) by (auto simp: set_zip)
  moreover have "distinct (map fst (zip old cells))" using assms(1,2) by simp
  ultimately have "map_of (zip old cells) (old ! j) = Some (cells ! j)"
    by (rule map_of_is_SomeI [rotated])
  with False assms(4,5) show ?thesis by (simp add: reindex_def)
qed

lemma reindex_absent:
  assumes "new \<noteq> old" and "i < length new" and "new ! i \<notin> set old"
  shows "reindex nan new old cells ! i = nan"
proof -
  have "new ! i \<notin> fst ` set (zip old cells)"
    using assms(3) by (auto dest: set_zip_leftD)
  then have "map_of (zip old cells) (new ! i) = None"
    by (simp add: map_of_eq_None_iff)
  with assms(1,2) show ?thesis by (simp add: reindex_def)
qed







subsection \<open>The views\<close>

lemma columns_loc_columns: "columns (loc_columns df keep) = filter keep (columns df)"
  by (simp add: loc_columns_def)

lemma columns_map_values: "columns (map_values f df) = columns df"
  by (simp add: map_values_def)




text \<open>
  Claim C4, as stated, fails: a column of the Created view whose one value is -1 has the
  sum -1, above 0.1 in absolute value, and line 163 drops it.
\<close>

theorem energy_filter_abs_counterexample:
  "column_sum exact_sum
      \<lparr>columns = [''Gas Plant''],
       rows = [((''base'', ''Elec''), [''Gas Plant'' \<mapsto> - 1])]\<rparr> ''Gas Plant'' = Finite (- 1)
   \<and> double_0_1 < \<bar>- 1\<bar>
   \<and> ''Gas Plant'' \<in> set (columns
         \<lparr>columns = [''Gas Plant''],
          rows = [((''base'', ''Elec''), [''Gas Plant'' \<mapsto> - 1])]\<rparr>)
   \<and> ''Gas Plant'' \<notin> set (columns (created_filter exact_sum divide
         \<lparr>columns = [''Gas Plant''],
          rows = [((''base'', ''Elec''), [''Gas Plant'' \<mapsto> - 1])]\<rparr>))"
  by (simp add: column_sum_def exact_sum_def created_filter_def columns_map_values
      columns_loc_columns gt_py_def double_0_1_def)

text \<open>
  Claim C4, amended.  The sum of a column is the number that \<open>sum()\<close> computes for it,
  whatever the machine arithmetic of the reduction, and the thresholds are the doubles
  that \<open>0.1\<close> and \<open>- 0.1\<close> denote.  A column survives the filter of the Created view exactly
  when its sum is strictly above the double 0.1, and the filter of the sign-flipped
  Consumed view exactly when its sum there is strictly below the double -0.1.  A column
  whose sum equals the double 0.1 in absolute value survives neither filter.  For a sum of
  the sign that the view expects (not negative in Created, not positive in the flipped
  Consumed view) the column survives exactly when the sum is above the double 0.1 in
  absolute value.
\<close>

theorem energy_filter_thresholds:
  "(c \<in> set (columns (created_filter sum_py truediv created)) \<longleftrightarrow>
      c \<in> set (columns created) \<and> gt_py (column_sum sum_py created c) double_0_1)
   \<and> (c \<in> set (columns (consumed_filter sum_py truediv consumed)) \<longleftrightarrow>
      c \<in> set (columns consumed) \<and> lt_py (column_sum sum_py consumed c) (- double_0_1))
   \<and> (\<forall>v. column_sum sum_py created c = Finite v \<and> \<bar>v\<bar> = double_0_1 \<longrightarrow>
         c \<notin> set (columns (created_filter sum_py truediv created)))
   \<and> (\<forall>v. column_sum sum_py consumed c = Finite v \<and> \<bar>v\<bar> = double_0_1 \<longrightarrow>
         c \<notin> set (columns (consumed_filter sum_py truediv consumed)))
   \<and> (\<forall>v. column_sum sum_py created c = Finite v \<and> 0 \<le> v \<longrightarrow>
         (c \<in> set (columns (created_filter sum_py truediv created)) \<longleftrightarrow>
            c \<in> set (columns created) \<and> double_0_1 < \<bar>v\<bar>))
   \<and> (\<forall>v. column_sum sum_py consumed c = Finite v \<and> v \<le> 0 \<longrightarrow>
         (c \<in> set (columns (consumed_filter sum_py truediv consumed)) \<longleftrightarrow>
            c \<in> set (columns consumed) \<and> double_0_1 < \<bar>v\<bar>))"
proof -
  have pos: "0 < double_0_1" by (simp add: double_0_1_def)
  have a: "c \<in> set (columns (created_filter sum_py truediv created)) \<longleftrightarrow>
      c \<in> set (columns created) \<and> gt_py (column_sum sum_py created c) double_0_1"
    by (simp add: created_filter_def columns_map_values columns_loc_columns)
  have b: "c \<in> set (columns (consumed_filter sum_py truediv consumed)) \<longleftrightarrow>
      c \<in> set (columns consumed) \<and> lt_py (column_sum sum_py consumed c) (- double_0_1)"
    by (simp add: consumed_filter_def columns_map_values columns_loc_columns)
  have a1: "c \<notin> set (columns (created_filter sum_py truediv created))"
    if "column_sum sum_py created c = Finite v \<and> \<bar>v\<bar> = double_0_1" for v
    unfolding a using that pos by (auto simp: gt_py_def)
  have b1: "c \<notin> set (columns (consumed_filter sum_py truediv consumed))"
    if "column_sum sum_py consumed c = Finite v \<and> \<bar>v\<bar> = double_0_1" for v
    unfolding b using that pos by (auto simp: lt_py_def)
  have a2: "c \<in> set (columns (created_filter sum_py truediv created)) \<longleftrightarrow>
            c \<in> set (columns created) \<and> double_0_1 < \<bar>v\<bar>"
    if "column_sum sum_py created c = Finite v \<and> 0 \<le> v" for v
    unfolding a using that by (auto simp: gt_py_def)
  have b2: "c \<in> set (columns (consumed_filter sum_py truediv consumed)) \<longleftrightarrow>
            c \<in> set (columns consumed) \<and> double_0_1 < \<bar>v\<bar>"
    if "column_sum sum_py consumed c = Finite v \<and> v \<le> 0" for v
    unfolding b using that by (auto simp: lt_py_def)
  from a b a1 b1 a2 b2 show ?thesis by (intro conjI allI impI)
qed

theorem energy_filter_thresholds_witness:
  "''Noise'' \<notin> set (columns (created_filter exact_sum divide
      \<lparr>columns = [''Noise'', ''PV''],
       rows = [((''base'', ''Elec''),
                [''Noise'' \<mapsto> 3602879701896397 / 36028797018963968,
                 ''PV'' \<mapsto> 3606482581598293 / 36028797018963968]),
               ((''altA'', ''Elec''), [''Noise'' \<mapsto> 0, ''PV'' \<mapsto> 0])]\<rparr>))
   \<and> ''PV'' \<in> set (columns (created_filter exact_sum divide
      \<lparr>columns = [''Noise'', ''PV''],
       rows = [((''base'', ''Elec''),
                [''Noise'' \<mapsto> 3602879701896397 / 36028797018963968,
                 ''PV'' \<mapsto> 3606482581598293 / 36028797018963968]),
               ((''altA'', ''Elec''), [''Noise'' \<mapsto> 0, ''PV'' \<mapsto> 0])]\<rparr>))"
proof -
  let ?df = "\<lparr>columns = [''Noise'', ''PV''],
       rows = [((''base'', ''Elec''),
                [''Noise'' \<mapsto> 3602879701896397 / 36028797018963968,
                 ''PV'' \<mapsto> 3606482581598293 / 36028797018963968]),
               ((''altA'', ''Elec''), [''Noise'' \<mapsto> 0, ''PV'' \<mapsto> (0::real)])]\<rparr>"
  have sn: "column_sum exact_sum ?df ''Noise'' = Finite double_0_1"
    by (simp add: column_sum_def exact_sum_def double_0_1_def)
  have sp: "column_sum exact_sum ?df ''PV'' = Finite (3606482581598293 / 36028797018963968)"
    by (simp add: column_sum_def exact_sum_def)
  have dn: "\<bar>double_0_1\<bar> = double_0_1" by (simp add: double_0_1_def)
  have dp: "(0::real) \<le> 3606482581598293 / 36028797018963968"
      "double_0_1 < \<bar>3606482581598293 / 36028797018963968 :: real\<bar>"
    by (simp_all add: double_0_1_def)
  have cp: "''PV'' \<in> set (columns ?df)" by simp
  from energy_filter_thresholds [where c = "''Noise''" and sum_py = exact_sum and truediv = divide
      and created = ?df and consumed = ?df] sn dn
  have n: "''Noise'' \<notin> set (columns (created_filter exact_sum divide ?df))" by blast
  from energy_filter_thresholds [where c = "''PV''" and sum_py = exact_sum and truediv = divide
      and created = ?df and consumed = ?df] sp dp cp
  have p: "''PV'' \<in> set (columns (created_filter exact_sum divide ?df))" by blast
  from n p show ?thesis by (rule conjI)
qed

subsection \<open>The storage columns\<close>

lemma set_sort_index_desc_asc: "set (sort_index_desc_asc rs) = set rs"
  by (simp add: sort_index_desc_asc_def)

lemma zero_commodity_present:
  assumes "commodity \<in> snd ` fst ` set (rows df)"
  shows "zero_commodity commodity column df =
           Inr \<lparr>columns = columns df,
                rows = map (\<lambda>((scenario, com), cells).
                  ((scenario, com), if com = commodity then cells(column \<mapsto> 0) else cells))
                  (rows df)\<rparr>"
  using assms by (simp add: zero_commodity_def)

text \<open>
  Claim C5.  For a retrieved-storage series with rows for the commodities Elec and Heat,
  lines 183-188 return the table with the two columns Battery and Reservoir and the row
  keys of the series, and in it every row of commodity Elec has Reservoir = 0 and every
  row of commodity Heat has Battery = 0, whatever the scenario.
\<close>

theorem split_storage_zeroes:
  assumes elec: "''Elec'' \<in> snd ` fst ` set sto_sums"
    and heat: "''Heat'' \<in> snd ` fst ` set sto_sums"
  shows "\<exists>df. split_storage sto_sums = Inr df
     \<and> columns df = [''Battery'', ''Reservoir'']
     \<and> fst ` set (rows df) = fst ` set sto_sums
     \<and> (\<forall>((scenario, com), cells) \<in> set (rows df).
           (com = ''Elec'' \<longrightarrow> cells ''Reservoir'' = Some 0)
         \<and> (com = ''Heat'' \<longrightarrow> cells ''Battery'' = Some 0))"
proof -
  define both :: "(string \<times> string, string) frame" where
    "both = \<lparr>columns = [''Battery'', ''Reservoir''],
         rows = sort_key fst
                  (map (\<lambda>(key, v). (key, \<lambda>c. if c = ''Battery'' \<or> c = ''Reservoir'' then v else None))
                       sto_sums)\<rparr>"
  define z1 :: "(string \<times> string, string) frame" where
    "z1 = \<lparr>columns = columns both,
                rows = map (\<lambda>((scenario, com), cells).
                  ((scenario, com), if com = ''Elec'' then cells(''Reservoir'' \<mapsto> 0) else cells))
                  (rows both)\<rparr>"
  define z2 :: "(string \<times> string, string) frame" where
    "z2 = \<lparr>columns = columns z1,
                rows = map (\<lambda>((scenario, com), cells).
                  ((scenario, com), if com = ''Heat'' then cells(''Battery'' \<mapsto> 0) else cells))
                  (rows z1)\<rparr>"
  have keys_both: "fst ` set (rows both) = fst ` set sto_sums"
    by (force simp: both_def)
  have keys_z1: "fst ` set (rows z1) = fst ` set (rows both)"
    by (force simp: z1_def)
  have keys_z2: "fst ` set (rows z2) = fst ` set (rows z1)"
    by (force simp: z2_def)
  have s1: "zero_commodity ''Elec'' ''Reservoir'' both = Inr z1"
    unfolding z1_def by (rule zero_commodity_present) (simp add: keys_both elec)
  have s2: "zero_commodity ''Heat'' ''Battery'' z1 = Inr z2"
    unfolding z2_def by (rule zero_commodity_present) (simp add: keys_z1 keys_both heat)
  have run: "split_storage sto_sums = Inr (sort_frame_desc_asc z2)"
    by (simp add: split_storage_def both_def [symmetric] s1 s2 bindE_def)
  have cols: "columns (sort_frame_desc_asc z2) = [''Battery'', ''Reservoir'']"
    by (simp add: sort_frame_desc_asc_def z2_def z1_def both_def)
  have rows_eq: "set (rows (sort_frame_desc_asc z2)) = set (rows z2)"
    by (simp add: sort_frame_desc_asc_def set_sort_index_desc_asc)
  have keys: "fst ` set (rows (sort_frame_desc_asc z2)) = fst ` set sto_sums"
    by (simp add: rows_eq keys_z2 keys_z1 keys_both)
  have zero: "(com = ''Elec'' \<longrightarrow> cells ''Reservoir'' = Some 0)
         \<and> (com = ''Heat'' \<longrightarrow> cells ''Battery'' = Some 0)"
    if "((scenario, com), cells) \<in> set (rows z2)" for scenario com cells
    using that by (auto simp: z2_def z1_def)
  from run cols keys zero rows_eq show ?thesis by auto
qed

theorem split_storage_zeroes_witness:
  "\<exists>df. split_storage [((''base'', ''Elec''), Some 2), ((''base'', ''Heat''), Some 3)] = Inr df
     \<and> (\<forall>((scenario, com), cells) \<in> set (rows df).
           (com = ''Elec'' \<longrightarrow> cells ''Reservoir'' = Some 0)
         \<and> (com = ''Heat'' \<longrightarrow> cells ''Battery'' = Some 0))"
proof -
  let ?s = "[((''base'', ''Elec''), Some 2), ((''base'', ''Heat''), Some (3::real))]"
  have h1: "''Elec'' \<in> snd ` fst ` set ?s" by simp
  have h2: "''Heat'' \<in> snd ` fst ` set ?s" by simp
  from split_storage_zeroes [OF h1 h2] obtain df where
    "split_storage ?s = Inr df"
    "\<forall>((scenario, com), cells) \<in> set (rows df).
           (com = ''Elec'' \<longrightarrow> cells ''Reservoir'' = Some 0)
         \<and> (com = ''Heat'' \<longrightarrow> cells ''Battery'' = Some 0)"
    by (elim exE conjE)
  then show ?thesis by (intro exI conjI)
qed

text \<open>Two scenarios: the other column keeps the value of the series, NaN included.\<close>

lemma split_storage_example:
  "case split_storage [((''base'', ''Elec''), Some 2), ((''base'', ''Heat''), Some 3),
                       ((''altA'', ''Elec''), Some 4), ((''altA'', ''Heat''), None)] of
     Inl e \<Rightarrow> False
   | Inr df \<Rightarrow> map (\<lambda>(key, cells). (key, cells ''Battery'', cells ''Reservoir'')) (rows df)
       = [((''base'', ''Elec''), Some 2, Some 0), ((''base'', ''Heat''), Some 0, Some 3),
          ((''altA'', ''Elec''), Some 4, Some 0), ((''altA'', ''Heat''), Some 0, None)]"
  by code_simp

text \<open>Without a row of commodity Elec the assignment of line 186 raises.\<close>

lemma split_storage_no_elec:
  "split_storage [((''base'', ''Heat''), Some 3)] = Inl KeyError"
  by (simp add: split_storage_def zero_commodity_def bindE_def)

end
